theory Spec2Isabelle
  imports Complex_Main "HOL-Library.Sublist"
begin

section \<open>Strings\<close>

text \<open>
  A Python \<open>str\<close> is modelled as a \<open>string\<close> whose characters are the code points
  U+0000 to U+00FF: the \<open>char\<close> with code \<open>n\<close> is the code point \<open>n\<close>. On this range
  \<open>str.lower\<close> and \<open>str.strip\<close> act character by character and stay inside the range.
  Code points above U+00FF are outside the model.
\<close>

definition is_space :: "char \<Rightarrow> bool" where
  \<comment> \<open>\<open>str.isspace\<close> on one character: the characters \<open>str.strip()\<close> removes.\<close>
  "is_space c =
     (let n = of_char c :: nat
      in (9 \<le> n \<and> n \<le> 13) \<or> (28 \<le> n \<and> n \<le> 32) \<or> n = 133 \<or> n = 160)"

definition is_upper :: "char \<Rightarrow> bool" where
  \<comment> \<open>The characters \<open>str.lower\<close> changes: A to Z, and U+00C0 to U+00DE without U+00D7.\<close>
  "is_upper c =
     (let n = of_char c :: nat
      in (65 \<le> n \<and> n \<le> 90) \<or> (192 \<le> n \<and> n \<le> 222 \<and> n \<noteq> 215))"

definition to_lower :: "char \<Rightarrow> char" where
  "to_lower c = (if is_upper c then char_of (of_char c + 32 :: nat) else c)"

definition strip :: "string \<Rightarrow> string" where
  \<comment> \<open>\<open>s.strip()\<close>: whitespace removed at both ends, nothing inside.\<close>
  "strip s = rev (dropWhile is_space (rev (dropWhile is_space s)))"

definition lower :: "string \<Rightarrow> string" where
  "lower s = map to_lower s"

definition replace_char :: "char \<Rightarrow> char \<Rightarrow> string \<Rightarrow> string" where
  \<comment> \<open>\<open>s.replace(old, new)\<close> for one-character \<open>old\<close> and \<open>new\<close>.\<close>
  "replace_char old new s = map (\<lambda>c. if c = old then new else c) s"

fun replace_dunder :: "string \<Rightarrow> string" where
  \<comment> \<open>\<open>s.replace("__", "_")\<close>: occurrences taken from the left, without overlap.\<close>
  "replace_dunder (a # b # cs) =
     (if a = CHR ''_'' \<and> b = CHR ''_'' then CHR ''_'' # replace_dunder cs
      else a # replace_dunder (b # cs))"
| "replace_dunder cs = cs"

lemma replace_dunder_shorter:
  "sublist ''__'' s \<Longrightarrow> length (replace_dunder s) < length s"
proof (induction s rule: replace_dunder.induct)
  case (1 a b cs)
  have le: "length (replace_dunder t) \<le> length t" for t
    by (induction t rule: replace_dunder.induct) auto
  show ?case
  proof (cases "a = CHR ''_'' \<and> b = CHR ''_''")
    case True
    then show ?thesis using le [of cs] by simp
  next
    case False
    with "1.prems" have "sublist ''__'' (b # cs)"
      by (auto simp: sublist_Cons_right)
    with False "1.IH"(2) show ?thesis by auto
  qed
qed (auto simp: sublist_Cons_right)

function collapse_underscores :: "string \<Rightarrow> string" where
  \<comment> \<open>\<open>while "__" in name: name = name.replace("__", "_")\<close>\<close>
  "collapse_underscores name =
     (if sublist ''__'' name then collapse_underscores (replace_dunder name) else name)"
  by pat_completeness auto
termination
  by (relation "measure length") (auto simp: replace_dunder_shorter)

definition normalize_label :: "string \<Rightarrow> string" where
  \<comment> \<open>The body of the loop of \<open>clean_column_names\<close>, for one label \<open>c\<close>.\<close>
  "normalize_label c =
     (let name = lower (strip c);
          name = replace_char (CHR ''-'') (CHR ''_'')
                   (replace_char (CHR ''/'') (CHR ''_'')
                      (replace_char (CHR '' '') (CHR ''_'') name))
      in collapse_underscores name)"

section \<open>Cells and numeric coercion\<close>

text \<open>
  The table is a \<open>pandas.DataFrame\<close>, with the semantics of pandas 1.x and 2.x on
  object columns. A cell is a string, a number or the missing marker \<open>NaN\<close>. A number is
  modelled by its exact value, a rational or one of the two infinities: rounding to a
  64-bit float, the finite range of floats and the difference between integer and float
  columns are not modelled, and the program itself only ever asks whether a number is
  \<open>>= 0\<close>.
\<close>

datatype number = Finite rat | PosInf | NegInf

fun nonneg :: "number \<Rightarrow> bool" where
  "nonneg (Finite q) = (0 \<le> q)"
| "nonneg PosInf = True"
| "nonneg NegInf = False"

datatype cell = Str string | Num number | NaN

definition isna :: "cell \<Rightarrow> bool" where
  "isna c = (c = NaN)"

text \<open>
  \<open>pd.to_numeric(series, errors="coerce")\<close> converts cell by cell. A string goes through
  the library's own scanner (\<open>floatify\<close>, \<open>to_double\<close>, \<open>precise_xstrtod\<close>): blanks,
  a sign, digits with an optional point, an optional exponent, blanks, and then the whole
  string must have been read; failing that, the spellings of infinity are tried. With
  \<open>errors="coerce"\<close> a string that is refused becomes \<open>NaN\<close> and nothing is raised.
\<close>

definition isspace_ascii :: "char \<Rightarrow> bool" where
  "isspace_ascii c = (c = CHR '' '' \<or> (let n = of_char c :: nat in 9 \<le> n \<and> n \<le> 13))"

definition isdigit_ascii :: "char \<Rightarrow> bool" where
  "isdigit_ascii c = (let n = of_char c :: nat in 48 \<le> n \<and> n \<le> 57)"

definition tolower_ascii :: "char \<Rightarrow> char" where
  "tolower_ascii c =
     (let n = of_char c :: nat in if 65 \<le> n \<and> n \<le> 90 then char_of (n + 32) else c)"

definition digits_value :: "string \<Rightarrow> nat" where
  "digits_value ds = foldl (\<lambda>n c. n * 10 + (of_char c - 48)) 0 ds"

definition split_sign :: "string \<Rightarrow> bool \<times> string" where
  \<comment> \<open>An optional sign: whether it is \<open>-\<close>, and what follows it.\<close>
  "split_sign p =
     (case p of
        [] \<Rightarrow> (False, [])
      | c # cs \<Rightarrow>
          if c = CHR ''-'' then (True, cs)
          else if c = CHR ''+'' then (False, cs)
          else (False, p))"

definition scan_fraction :: "string \<Rightarrow> string \<times> string" where
  \<comment> \<open>An optional decimal point with the digits after it, and what follows them.\<close>
  "scan_fraction p =
     (case p of
        [] \<Rightarrow> ([], [])
      | c # cs \<Rightarrow>
          if c = CHR ''.'' then (takeWhile isdigit_ascii cs, dropWhile isdigit_ascii cs)
          else ([], p))"

definition scan_exponent :: "string \<Rightarrow> int \<times> string" where
  \<comment> \<open>An optional exponent. With no digit after \<open>e\<close> it is not consumed, so that the
      conversion then fails on the unread rest.\<close>
  "scan_exponent p =
     (case p of
        [] \<Rightarrow> (0, [])
      | c # cs \<Rightarrow>
          if c = CHR ''e'' \<or> c = CHR ''E'' then
            (let (neg, q) = split_sign cs;
                 ds = takeWhile isdigit_ascii q
             in if ds = [] then (0, p)
                else ((if neg then - int (digits_value ds) else int (digits_value ds)),
                      dropWhile isdigit_ascii q))
          else (0, p))"

definition scale10 :: "int \<Rightarrow> int \<Rightarrow> rat" where
  "scale10 m e = (if 0 \<le> e then of_int m * 10 ^ nat e else of_int m / 10 ^ nat (- e))"

definition precise_xstrtod :: "string \<Rightarrow> (rat \<times> string) option" where
  \<comment> \<open>The value read and the unread rest; \<open>None\<close> when there is no digit at all.\<close>
  "precise_xstrtod s =
     (let (neg, p1) = split_sign (dropWhile isspace_ascii s);
          ip = takeWhile isdigit_ascii p1;
          (fp, p3) = scan_fraction (dropWhile isdigit_ascii p1)
      in if ip = [] \<and> fp = [] then None
         else
           (let m = int (digits_value (ip @ fp));
                (ex, p4) = scan_exponent p3
            in Some (scale10 (if neg then - m else m) (ex - int (length fp)),
                     dropWhile isspace_ascii p4)))"

definition to_double :: "string \<Rightarrow> rat option" where
  "to_double s =
     (case precise_xstrtod s of
        None \<Rightarrow> None
      | Some (v, rest) \<Rightarrow> if rest = [] then Some v else None)"

definition floatify :: "string \<Rightarrow> number option" where
  "floatify s =
     (case to_double s of
        Some v \<Rightarrow> Some (Finite v)
      | None \<Rightarrow>
          (let t = map tolower_ascii s
           in if t = ''inf'' \<or> t = ''+inf'' \<or> t = ''infinity'' \<or> t = ''+infinity''
              then Some PosInf
              else if t = ''-inf'' \<or> t = ''-infinity'' then Some NegInf
              else None))"

fun to_numeric_cell :: "cell \<Rightarrow> cell" where
  "to_numeric_cell (Str s) = (case floatify s of Some v \<Rightarrow> Num v | None \<Rightarrow> NaN)"
| "to_numeric_cell (Num v) = Num v"
| "to_numeric_cell NaN = NaN"

fun ge_zero :: "cell \<Rightarrow> bool" where
  \<comment> \<open>\<open>x >= 0\<close> in a numeric column: false on \<open>NaN\<close>. A string is never compared,
      see \<open>filter_ge_zero\<close>.\<close>
  "ge_zero (Num v) = nonneg v"
| "ge_zero NaN = False"
| "ge_zero (Str s) = False"

fun is_str :: "cell \<Rightarrow> bool" where
  "is_str (Str s) = True"
| "is_str c = False"


section \<open>The table and the four stages\<close>

text \<open>
  A DataFrame is its list of column labels and its rows, each row a list of cells in the
  order of the columns. Labels may repeat: pandas allows it, and \<open>df[col]\<close> is then a
  DataFrame, not a Series. The row index is not modelled. Every stage works on a copy,
  so a stage is a function from the table to the new table, or to the exception raised.
\<close>

record dataframe =
  columns :: "string list"
  rows :: "cell list list"

definition wf_dataframe :: "dataframe \<Rightarrow> bool" where
  \<comment> \<open>Every row has one cell per column.\<close>
  "wf_dataframe df = list_all (\<lambda>r. length r = length (columns df)) (rows df)"

datatype error = TypeError | AttributeError | KeyError | ValueError

definition column_positions :: "dataframe \<Rightarrow> string \<Rightarrow> nat list" where
  "column_positions df col = [i \<leftarrow> [0..<length (columns df)]. columns df ! i = col]"

definition assign_column :: "nat \<Rightarrow> (cell \<Rightarrow> cell) \<Rightarrow> dataframe \<Rightarrow> dataframe" where
  \<comment> \<open>\<open>df[col] = f(df[col])\<close> for the Series at position \<open>i\<close> and a cell-wise \<open>f\<close>.\<close>
  "assign_column i f df = df\<lparr>rows := map (\<lambda>r. r[i := f (r ! i)]) (rows df)\<rparr>"

definition clean_column_names :: "dataframe \<Rightarrow> dataframe" where
  "clean_column_names df = df\<lparr>columns := map normalize_label (columns df)\<rparr>"

definition astype_str :: "(number \<Rightarrow> string) \<Rightarrow> cell \<Rightarrow> string" where
  \<comment> \<open>\<open>astype(str)\<close> on one cell. The text Python prints for a number is a parameter.\<close>
  "astype_str repr c = (case c of Str s \<Rightarrow> s | Num v \<Rightarrow> repr v | NaN \<Rightarrow> ''nan'')"

definition strip_cell :: "(number \<Rightarrow> string) \<Rightarrow> cell \<Rightarrow> cell" where
  "strip_cell repr c = Str (strip (astype_str repr c))"

definition designated_text :: "string \<Rightarrow> bool" where
  "designated_text c = (sublist ''product'' c \<or> sublist ''category'' c)"

definition target_cols :: "dataframe \<Rightarrow> string list" where
  "target_cols df = [c \<leftarrow> columns df. designated_text c]"

fun strip_columns :: "(number \<Rightarrow> string) \<Rightarrow> string list \<Rightarrow> dataframe \<Rightarrow> error + dataframe" where
  \<comment> \<open>\<open>for col in target_cols: df[col] = df[col].astype(str).str.strip()\<close>.
      Under a repeated label \<open>df[col]\<close> is a DataFrame, which has no \<open>.str\<close>.\<close>
  "strip_columns repr [] df = Inr df"
| "strip_columns repr (col # cols) df =
     (case column_positions df col of
        [] \<Rightarrow> Inl KeyError
      | [i] \<Rightarrow> strip_columns repr cols (assign_column i (strip_cell repr) df)
      | _ \<Rightarrow> Inl AttributeError)"

definition strip_product_and_category :: "(number \<Rightarrow> string) \<Rightarrow> dataframe \<Rightarrow> error + dataframe" where
  "strip_product_and_category repr df = strip_columns repr (target_cols df) df"

definition to_numeric_column :: "string \<Rightarrow> dataframe \<Rightarrow> error + dataframe" where
  \<comment> \<open>\<open>if col in df.columns: df[col] = pd.to_numeric(df[col], errors="coerce")\<close>.
      \<open>to_numeric\<close> raises TypeError on a DataFrame.\<close>
  "to_numeric_column col df =
     (if col \<in> set (columns df) then
        (case column_positions df col of
           [i] \<Rightarrow> Inr (assign_column i to_numeric_cell df)
         | _ \<Rightarrow> Inl TypeError)
      else Inr df)"

fun to_numeric_columns :: "string list \<Rightarrow> dataframe \<Rightarrow> error + dataframe" where
  "to_numeric_columns [] df = Inr df"
| "to_numeric_columns (col # cols) df =
     (case to_numeric_column col df of
        Inl e \<Rightarrow> Inl e
      | Inr df' \<Rightarrow> to_numeric_columns cols df')"

definition dropna :: "string list \<Rightarrow> dataframe \<Rightarrow> dataframe" where
  \<comment> \<open>\<open>df.dropna(subset=...)\<close>: a row goes when any cell under a label of the subset is
      missing.\<close>
  "dropna labels df =
     df\<lparr>rows := filter
       (\<lambda>r. list_all (\<lambda>c. list_all (\<lambda>i. \<not> isna (r ! i)) (column_positions df c)) labels)
       (rows df)\<rparr>"

definition handle_missing_values :: "dataframe \<Rightarrow> error + dataframe" where
  "handle_missing_values df =
     (case to_numeric_columns [''price'', ''quantity''] df of
        Inl e \<Rightarrow> Inl e
      | Inr df' \<Rightarrow>
          (let required_cols = [c \<leftarrow> [''price'', ''quantity'']. c \<in> set (columns df')]
           in if required_cols \<noteq> [] then Inr (dropna required_cols df') else Inr df'))"

definition filter_ge_zero :: "string \<Rightarrow> dataframe \<Rightarrow> error + dataframe" where
  \<comment> \<open>\<open>if col in df.columns: df = df[df[col] >= 0]\<close>. Comparing a string with \<open>0\<close>
      raises TypeError. The branch of a repeated label is never reached in
      \<open>remove_invalid_rows\<close>, where \<open>to_numeric\<close> has raised before.\<close>
  "filter_ge_zero col df =
     (if col \<in> set (columns df) then
        (case column_positions df col of
           [i] \<Rightarrow>
             if list_ex (\<lambda>r. is_str (r ! i)) (rows df) then Inl TypeError
             else Inr (df\<lparr>rows := filter (\<lambda>r. ge_zero (r ! i)) (rows df)\<rparr>)
         | _ \<Rightarrow> Inl ValueError)
      else Inr df)"

definition remove_invalid_rows :: "dataframe \<Rightarrow> error + dataframe" where
  "remove_invalid_rows df =
     (case to_numeric_columns [''price'', ''quantity''] df of
        Inl e \<Rightarrow> Inl e
      | Inr df1 \<Rightarrow>
          (case filter_ge_zero ''price'' df1 of
             Inl e \<Rightarrow> Inl e
           | Inr df2 \<Rightarrow> filter_ge_zero ''quantity'' df2))"

text \<open>
  The same stages described row by row, for the statements below: what coercion,
  trimming and the two filters do to one row, given the labels of the columns.
\<close>

definition designated_numeric :: "string \<Rightarrow> bool" where
  "designated_numeric c = (c = ''price'' \<or> c = ''quantity'')"

definition map_under :: "(string \<Rightarrow> bool) \<Rightarrow> (cell \<Rightarrow> cell) \<Rightarrow> string list \<Rightarrow> cell list \<Rightarrow> cell list" where
  \<comment> \<open>\<open>f\<close> applied to the cells of a row that stand under a label satisfying \<open>P\<close>.\<close>
  "map_under P f cols r = map (\<lambda>(c, x). if P c then f x else x) (zip cols r)"

definition all_under :: "(string \<Rightarrow> bool) \<Rightarrow> (cell \<Rightarrow> bool) \<Rightarrow> string list \<Rightarrow> cell list \<Rightarrow> bool" where
  \<comment> \<open>Every cell of a row that stands under a label satisfying \<open>P\<close> satisfies \<open>Q\<close>.\<close>
  "all_under P Q cols r = list_all (\<lambda>(c, x). P c \<longrightarrow> Q x) (zip cols r)"

definition coerce_row :: "string list \<Rightarrow> cell list \<Rightarrow> cell list" where
  "coerce_row cols r = map_under designated_numeric to_numeric_cell cols r"

definition trim_row :: "(number \<Rightarrow> string) \<Rightarrow> string list \<Rightarrow> cell list \<Rightarrow> cell list" where
  "trim_row repr cols r = map_under designated_text (strip_cell repr) cols r"

definition complete_row :: "string list \<Rightarrow> cell list \<Rightarrow> bool" where
  "complete_row cols r = all_under designated_numeric (\<lambda>x. \<not> isna x) cols r"

definition valid_row :: "string list \<Rightarrow> cell list \<Rightarrow> bool" where
  "valid_row cols r = all_under designated_numeric ge_zero cols r"

definition column_values :: "nat \<Rightarrow> dataframe \<Rightarrow> cell list" where
  "column_values i df = map (\<lambda>r. r ! i) (rows df)"

definition values_under :: "dataframe \<Rightarrow> string \<Rightarrow> cell list list" where
  \<comment> \<open>The columns found under a label, each as its list of values.\<close>
  "values_under df col = map (\<lambda>i. column_values i df) (column_positions df col)"

definition trimmed :: "string \<Rightarrow> bool" where
  \<comment> \<open>No whitespace at either end.\<close>
  "trimmed s = (s = [] \<or> (\<not> is_space (hd s) \<and> \<not> is_space (last s)))"

definition lowercase :: "string \<Rightarrow> bool" where
  "lowercase s = list_all (\<lambda>c. \<not> is_upper c) s"

subsection \<open>Example tables\<close>

definition sales_example :: dataframe where
  "sales_example =
     \<lparr>columns = [''product_name'', ''price'', ''quantity''],
      rows = [[Str '' Widget  '', Str ''12.50'', Str ''3''],
              [NaN, Str ''-5'', Num (Finite 3)],
              [Str ''Gadget'', Str ''abc'', Str ''1''],
              [Str ''Bolt'', NaN, Str ''2''],
              [Str ''Nut '', Str ''1e3'', Str ''0'']]\<rparr>"

definition contacts_example :: dataframe where
  "contacts_example =
     \<lparr>columns = [''name'', ''city''],
      rows = [[Str ''Ada'', NaN], [Str ''Bob'', Str ''Oslo'']]\<rparr>"

definition collision_example :: dataframe where
  "collision_example =
     \<lparr>columns = [''Unit Price'', ''unit-price''],
      rows = [[Str ''9.99'', Str ''10'']]\<rparr>"

section \<open>The Header Normalizer on one label\<close>

declare collapse_underscores.simps [simp del]

lemma to_lower_not_upper: "\<not> is_upper (to_lower c)"
  unfolding to_lower_def is_upper_def Let_def by auto

lemma to_lower_id: "\<not> is_upper c \<Longrightarrow> to_lower c = c"
  by (simp add: to_lower_def)

lemma is_space_to_lower: "is_space (to_lower c) = is_space c"
  unfolding to_lower_def is_upper_def is_space_def Let_def by auto

lemma trimmed_strip: "trimmed (strip s)"
proof (cases "strip s = []")
  case True
  then show ?thesis by (simp add: trimmed_def)
next
  case False
  let ?t = "dropWhile is_space s"
  let ?u = "dropWhile is_space (rev ?t)"
  from False have u: "?u \<noteq> []" by (simp add: strip_def)
  have t: "?t \<noteq> []"
  proof
    assume a: "?t = []"
    have "?u = []" unfolding a by simp
    with u show False by simp
  qed
  have l: "\<not> is_space (last (strip s))"
    using u by (simp add: strip_def last_rev hd_dropWhile)
  have "hd (strip s) = last ?u" using u by (simp add: strip_def hd_rev)
  also have "\<dots> = last (rev ?t)" using u
    by (metis last_appendR takeWhile_dropWhile_id)
  also have "\<dots> = hd ?t" using t by (simp add: last_rev)
  finally have "\<not> is_space (hd (strip s))" using t by (simp add: hd_dropWhile)
  with l show ?thesis by (simp add: trimmed_def)
qed

lemma strip_trimmed: "trimmed s \<Longrightarrow> strip s = s"
proof (cases "s = []")
  case True
  then show ?thesis by (simp add: strip_def)
next
  case False
  assume "trimmed s"
  with False have h: "\<not> is_space (hd s)" and l: "\<not> is_space (last s)"
    by (simp_all add: trimmed_def)
  from False h have 1: "dropWhile is_space s = s" by (cases s) auto
  from False l have 2: "dropWhile is_space (rev s) = rev s"
    by (cases "rev s") (auto simp: last_rev [symmetric] hd_rev)
  show ?thesis by (simp add: strip_def 1 2)
qed

lemma replace_dunder_Nil: "replace_dunder s = [] \<longleftrightarrow> s = []"
  by (induction s rule: replace_dunder.induct) auto

lemma hd_replace_dunder: "hd (replace_dunder s) = hd s"
  by (induction s rule: replace_dunder.induct) auto

lemma last_replace_dunder: "last (replace_dunder s) = last s"
  by (induction s rule: replace_dunder.induct) (auto simp: replace_dunder_Nil)

lemma set_replace_dunder: "set (replace_dunder s) \<subseteq> set s"
  by (induction s rule: replace_dunder.induct) auto

lemma trimmed_replace_dunder: "trimmed s \<Longrightarrow> trimmed (replace_dunder s)"
  by (simp add: trimmed_def replace_dunder_Nil hd_replace_dunder last_replace_dunder)

lemma set_collapse_underscores: "set (collapse_underscores s) \<subseteq> set s"
proof (induction s rule: collapse_underscores.induct)
  case (1 name)
  show ?case
  proof (cases "sublist ''__'' name")
    case True
    with 1 set_replace_dunder [of name] show ?thesis
      by (subst collapse_underscores.simps) auto
  next
    case False
    then show ?thesis by (subst collapse_underscores.simps) simp
  qed
qed

lemma collapse_underscores_free: "\<not> sublist ''__'' (collapse_underscores s)"
proof (induction s rule: collapse_underscores.induct)
  case (1 name)
  then show ?case by (subst collapse_underscores.simps) simp
qed

lemma collapse_underscores_id: "\<not> sublist ''__'' s \<Longrightarrow> collapse_underscores s = s"
  by (subst collapse_underscores.simps) simp

lemma trimmed_collapse_underscores: "trimmed s \<Longrightarrow> trimmed (collapse_underscores s)"
proof (induction s rule: collapse_underscores.induct)
  case (1 name)
  then show ?case
    by (subst collapse_underscores.simps) (simp add: trimmed_replace_dunder)
qed

lemma trimmed_lower: "trimmed s \<Longrightarrow> trimmed (lower s)"
  by (cases "s = []") (simp_all add: trimmed_def lower_def hd_map last_map is_space_to_lower)

lemma trimmed_replace_char:
  "trimmed s \<Longrightarrow> \<not> is_space new \<Longrightarrow> trimmed (replace_char old new s)"
  by (cases "s = []") (simp_all add: trimmed_def replace_char_def hd_map last_map)

lemma replace_char_absent: "new \<noteq> old \<Longrightarrow> old \<notin> set (replace_char old new s)"
  by (auto simp: replace_char_def)

lemma replace_char_keeps_absent:
  "c \<notin> set s \<Longrightarrow> c \<noteq> new \<Longrightarrow> c \<notin> set (replace_char old new s)"
  by (auto simp: replace_char_def)

lemma replace_char_id: "old \<notin> set s \<Longrightarrow> replace_char old new s = s"
  by (induction s) (auto simp: replace_char_def)

lemma lower_id: "lowercase s \<Longrightarrow> lower s = s"
  by (induction s) (auto simp: lower_def lowercase_def to_lower_id)

lemma lowercase_lower: "lowercase (lower s)"
  by (simp add: lower_def lowercase_def list_all_iff to_lower_not_upper)

lemma lowercase_replace_char:
  "lowercase s \<Longrightarrow> \<not> is_upper new \<Longrightarrow> lowercase (replace_char old new s)"
  by (auto simp: replace_char_def lowercase_def list_all_iff)

lemma lowercase_collapse: "lowercase s \<Longrightarrow> lowercase (collapse_underscores s)"
  using set_collapse_underscores [of s] by (auto simp: lowercase_def list_all_iff)

lemma underscore_plain: "\<not> is_upper (CHR ''_'')" "\<not> is_space (CHR ''_'')"
  by (simp_all add: is_upper_def is_space_def)

lemma normalize_label_props:
  "lowercase (normalize_label l) \<and>
   CHR '' '' \<notin> set (normalize_label l) \<and>
   CHR ''/'' \<notin> set (normalize_label l) \<and>
   CHR ''-'' \<notin> set (normalize_label l) \<and>
   \<not> sublist ''__'' (normalize_label l) \<and>
   trimmed (normalize_label l)"
proof -
  let ?a = "lower (strip l)"
  let ?b = "replace_char (CHR '' '') (CHR ''_'') ?a"
  let ?c = "replace_char (CHR ''/'') (CHR ''_'') ?b"
  let ?d = "replace_char (CHR ''-'') (CHR ''_'') ?c"
  have n: "normalize_label l = collapse_underscores ?d"
    by (simp add: normalize_label_def)
  have low: "lowercase ?d"
    by (intro lowercase_replace_char lowercase_lower underscore_plain)
  have sp: "CHR '' '' \<notin> set ?d"
    by (intro replace_char_keeps_absent replace_char_absent) simp_all
  have sl: "CHR ''/'' \<notin> set ?d"
    by (intro replace_char_keeps_absent replace_char_absent) simp_all
  have da: "CHR ''-'' \<notin> set ?d"
    by (intro replace_char_absent) simp
  have tr: "trimmed ?d"
    by (intro trimmed_replace_char trimmed_lower trimmed_strip underscore_plain)
  show ?thesis
    unfolding n
    using low sp sl da tr set_collapse_underscores [of ?d]
    by (auto simp: lowercase_collapse collapse_underscores_free trimmed_collapse_underscores)
qed

text \<open>
  C3, as stated, fails: the output label can contain a whitespace character. Only the
  space is replaced, and \<open>strip\<close> removes whitespace at the two ends only, so a tab
  inside a label stays where it is: \<open>"a\tb"\<close> is its own normal form.
\<close>

theorem normalize_label_keeps_inner_tab:
  "normalize_label [CHR ''a'', CHR 0x09, CHR ''b''] = [CHR ''a'', CHR 0x09, CHR ''b''] \<and>
   is_space (CHR 0x09) \<and>
   CHR 0x09 \<in> set (normalize_label [CHR ''a'', CHR 0x09, CHR ''b''])"
  by code_simp

text \<open>
  C3 (amended): for every input label, the output of the Header Normalizer is
  lowercase, contains no space character, no \<open>/\<close> and no \<open>-\<close>, contains no two
  consecutive underscores, and has no whitespace at either end. (Whitespace other than
  the space may remain inside the label.)
\<close>

theorem normalize_label_shape:
  "lowercase (normalize_label l) \<and>
   CHR '' '' \<notin> set (normalize_label l) \<and>
   CHR ''/'' \<notin> set (normalize_label l) \<and>
   CHR ''-'' \<notin> set (normalize_label l) \<and>
   \<not> sublist ''__'' (normalize_label l) \<and>
   trimmed (normalize_label l)"
  by (rule normalize_label_props)

theorem normalize_label_shape_witness:
  "normalize_label '' Unit-Price / USD '' = ''unit_price_usd'' \<and>
   lowercase (normalize_label '' Unit-Price / USD '') \<and>
   CHR '' '' \<notin> set (normalize_label '' Unit-Price / USD '') \<and>
   CHR ''/'' \<notin> set (normalize_label '' Unit-Price / USD '') \<and>
   CHR ''-'' \<notin> set (normalize_label '' Unit-Price / USD '') \<and>
   \<not> sublist ''__'' (normalize_label '' Unit-Price / USD '') \<and>
   trimmed (normalize_label '' Unit-Price / USD '')"
proof -
  have "normalize_label '' Unit-Price / USD '' = ''unit_price_usd''"
    by code_simp
  with normalize_label_shape [of "'' Unit-Price / USD ''"] show ?thesis
    by blast
qed

text \<open>
  C8: the Header Normalizer is idempotent on labels: normalizing the normal form of a
  label gives that normal form again.
\<close>

theorem normalize_label_idempotent:
  "normalize_label (normalize_label l) = normalize_label l"
proof -
  let ?n = "normalize_label l"
  note f = normalize_label_props [of l]
  have 1: "strip ?n = ?n" using f by (simp add: strip_trimmed)
  have 2: "lower ?n = ?n" using f by (simp add: lower_id)
  have "normalize_label ?n = collapse_underscores ?n"
    using f by (simp add: normalize_label_def [of ?n] 1 2 replace_char_id)
  also have "\<dots> = ?n" using f by (simp add: collapse_underscores_id)
  finally show ?thesis .
qed

theorem normalize_label_idempotent_witness:
  "normalize_label '' Product Name '' = ''product_name'' \<and>
   normalize_label ''product_name'' = ''product_name''"
proof -
  have 1: "normalize_label '' Product Name '' = ''product_name''" by code_simp
  from normalize_label_idempotent [of "'' Product Name ''"] 1 show ?thesis by simp
qed

section \<open>Columns, rows and the stages described row by row\<close>

subsection \<open>The positions of a label\<close>

lemma positions_count: "length [i \<leftarrow> [0..<length xs]. xs ! i = c] = count_list xs c"
proof (induction xs rule: rev_induct)
  case Nil
  then show ?case by simp
next
  case (snoc x xs)
  have "[i \<leftarrow> [0..<length xs]. (xs @ [x]) ! i = c] = [i \<leftarrow> [0..<length xs]. xs ! i = c]"
    by (rule filter_cong) (auto simp: nth_append)
  with snoc show ?case by simp
qed

lemma set_column_positions:
  "set (column_positions df col) = {i. i < length (columns df) \<and> columns df ! i = col}"
  by (auto simp: column_positions_def)

lemma length_column_positions:
  "length (column_positions df col) = count_list (columns df) col"
  by (simp add: column_positions_def positions_count)

lemma column_positions_Nil:
  "column_positions df col = [] \<longleftrightarrow> col \<notin> set (columns df)"
proof -
  have "column_positions df col = [] \<longleftrightarrow> set (column_positions df col) = {}"
    by simp
  also have "\<dots> \<longleftrightarrow> col \<notin> set (columns df)"
    unfolding set_column_positions by (auto simp: in_set_conv_nth)
  finally show ?thesis .
qed

lemma column_positions_single:
  assumes "count_list (columns df) col \<le> 1" and "col \<in> set (columns df)"
  obtains i where "column_positions df col = [i]"
proof -
  from assms(2) have "column_positions df col \<noteq> []"
    by (simp add: column_positions_Nil)
  moreover from assms(1) have "length (column_positions df col) \<le> 1"
    by (simp add: length_column_positions)
  ultimately obtain i where "column_positions df col = [i]"
    by (cases "column_positions df col") auto
  then show thesis by (rule that)
qed

lemma column_positions_singleD:
  assumes "column_positions df col = [i]"
  shows "i < length (columns df)" and "columns df ! i = col"
    and "\<And>k. k < length (columns df) \<Longrightarrow> columns df ! k = col \<Longrightarrow> k = i"
  using set_column_positions [of df col] assms by auto

subsection \<open>Working under the labels of a row\<close>

lemma length_map_under: "length r = length cols \<Longrightarrow> length (map_under P f cols r) = length cols"
  by (simp add: map_under_def)

lemma nth_map_under:
  "length r = length cols \<Longrightarrow> k < length cols \<Longrightarrow>
   map_under P f cols r ! k = (if P (cols ! k) then f (r ! k) else r ! k)"
  by (simp add: map_under_def)

lemma all_under_nth:
  "length r = length cols \<Longrightarrow>
   all_under P Q cols r \<longleftrightarrow> (\<forall>k < length cols. P (cols ! k) \<longrightarrow> Q (r ! k))"
  by (simp add: all_under_def list_all_length)

lemma update_as_map_under:
  assumes "length r = length (columns df)" and "column_positions df col = [i]"
  shows "r[i := f (r ! i)] = map_under (\<lambda>c. c = col) f (columns df) r"
proof (rule nth_equalityI)
  show "length (r[i := f (r ! i)]) = length (map_under (\<lambda>c. c = col) f (columns df) r)"
    using assms(1) by (simp add: length_map_under)
next
  fix k assume "k < length (r[i := f (r ! i)])"
  with assms(1) have k: "k < length (columns df)" by simp
  show "r[i := f (r ! i)] ! k = map_under (\<lambda>c. c = col) f (columns df) r ! k"
  proof (cases "k = i")
    case True
    with column_positions_singleD(1,2) [OF assms(2)] assms(1) show ?thesis
      by (simp add: nth_map_under)
  next
    case False
    with column_positions_singleD(3) [OF assms(2) k] have "columns df ! k \<noteq> col"
      by blast
    with False k assms(1) show ?thesis
      by (simp add: nth_map_under)
  qed
qed

lemma map_under_absent:
  assumes "length r = length cols" and "\<And>c. c \<in> set cols \<Longrightarrow> \<not> P c"
  shows "map_under P f cols r = r"
  using assms by (intro nth_equalityI) (auto simp: length_map_under nth_map_under)

lemma map_under_compose:
  assumes "length r = length cols" and "\<And>c. \<not> (P c \<and> Q c)"
  shows "map_under P f cols (map_under Q f cols r) = map_under (\<lambda>c. Q c \<or> P c) f cols r"
  using assms by (intro nth_equalityI) (auto simp: length_map_under nth_map_under)

lemma all_under_absent:
  assumes "length r = length cols" and "\<And>c. c \<in> set cols \<Longrightarrow> \<not> P c"
  shows "all_under P Q cols r"
  using assms by (auto simp: all_under_nth)

lemma all_under_conj:
  "length r = length cols \<Longrightarrow>
   (all_under P Q cols r \<and> all_under P' Q cols r) = all_under (\<lambda>c. P c \<or> P' c) Q cols r"
  by (auto simp: all_under_nth)

lemma all_under_single:
  assumes "length r = length (columns df)" and "column_positions df col = [i]"
  shows "all_under (\<lambda>c. c = col) Q (columns df) r = Q (r ! i)"
proof -
  note d = column_positions_singleD [OF assms(2)]
  have "(\<forall>k < length (columns df). columns df ! k = col \<longrightarrow> Q (r ! k)) = Q (r ! i)"
    using d(1,2) d(3) by blast
  with assms(1) show ?thesis by (simp add: all_under_nth)
qed

subsection \<open>Assigning a column\<close>

lemma wf_dataframeD: "wf_dataframe df \<Longrightarrow> r \<in> set (rows df) \<Longrightarrow> length r = length (columns df)"
  by (simp add: wf_dataframe_def list_all_iff)

lemma wf_map_rows:
  assumes "wf_dataframe df" and "\<And>r. length r = length (columns df) \<Longrightarrow> length (g r) = length (columns df)"
  shows "wf_dataframe (df\<lparr>rows := map g (rows df)\<rparr>)"
  using assms by (simp add: wf_dataframe_def list_all_iff)

lemma wf_filter_rows:
  "wf_dataframe df \<Longrightarrow> wf_dataframe (df\<lparr>rows := filter P (rows df)\<rparr>)"
  by (simp add: wf_dataframe_def list_all_iff)

lemma assign_column_under:
  assumes "wf_dataframe df" and "column_positions df col = [i]"
  shows "assign_column i f df = df\<lparr>rows := map (map_under (\<lambda>c. c = col) f (columns df)) (rows df)\<rparr>"
  using assms by (simp add: assign_column_def update_as_map_under wf_dataframeD)

lemma rows_under_absent:
  assumes "wf_dataframe df" and "col \<notin> set (columns df)"
  shows "map (map_under (\<lambda>c. c = col) f (columns df)) (rows df) = rows df"
  using assms by (intro map_idI map_under_absent) (auto simp: wf_dataframeD)

lemma to_numeric_cell_not_str: "\<not> is_str (to_numeric_cell x)"
  by (cases x) (auto split: option.splits)

lemma to_numeric_cell_idem: "to_numeric_cell (to_numeric_cell x) = to_numeric_cell x"
  by (cases x) (auto split: option.splits)


lemma ge_zero_Num: "ge_zero x \<Longrightarrow> \<exists>v. x = Num v \<and> nonneg v"
  by (cases x) auto

lemma length_coerce_row: "length r = length cols \<Longrightarrow> length (coerce_row cols r) = length cols"
  by (simp add: coerce_row_def length_map_under)

lemma coerce_row_idem:
  "length r = length cols \<Longrightarrow> coerce_row cols (coerce_row cols r) = coerce_row cols r"
  by (intro nth_equalityI)
     (auto simp: coerce_row_def length_map_under nth_map_under to_numeric_cell_idem)

lemma coerce_row_no_str:
  assumes "length r = length cols"
  shows "all_under designated_numeric (\<lambda>x. \<not> is_str x) cols (coerce_row cols r)"
  using assms
  by (simp add: all_under_nth coerce_row_def length_map_under nth_map_under to_numeric_cell_not_str)

lemma designated_numeric_split:
  "designated_numeric = (\<lambda>c. c = ''price'' \<or> c = ''quantity'')"
  by (simp add: designated_numeric_def fun_eq_iff)

subsection \<open>Coercion of the numeric columns\<close>

text \<open>
  \<open>to_numeric_column\<close> returns exactly when the label occurs at most once among the
  columns; it then rewrites the cells under that label and nothing else.
\<close>

lemma to_numeric_column_under:
  assumes "wf_dataframe df" and "count_list (columns df) col \<le> 1"
  shows "to_numeric_column col df =
    Inr (df\<lparr>rows := map (map_under (\<lambda>c. c = col) to_numeric_cell (columns df)) (rows df)\<rparr>)"
proof (cases "col \<in> set (columns df)")
  case True
  with assms(2) obtain i where "column_positions df col = [i]"
    by (rule column_positions_single)
  with True assms(1) show ?thesis
    by (simp add: to_numeric_column_def assign_column_under)
next
  case False
  with assms(1) show ?thesis
    by (simp add: to_numeric_column_def rows_under_absent)
qed

lemma to_numeric_column_duplicate:
  assumes "1 < count_list (columns df) col"
  shows "to_numeric_column col df = Inl TypeError"
proof -
  from assms have "1 < length (column_positions df col)"
    by (simp add: length_column_positions)
  then obtain a b rest where "column_positions df col = a # b # rest"
    by (cases "column_positions df col" rule: remdups_adj.cases) auto
  moreover from this have "col \<in> set (columns df)"
    using column_positions_Nil [of df col] by auto
  ultimately show ?thesis by (simp add: to_numeric_column_def)
qed

lemma to_numeric_column_Inr:
  assumes "wf_dataframe df" and "to_numeric_column col df = Inr df'"
  shows "count_list (columns df) col \<le> 1"
    and "df' = df\<lparr>rows := map (map_under (\<lambda>c. c = col) to_numeric_cell (columns df)) (rows df)\<rparr>"
proof -
  show c: "count_list (columns df) col \<le> 1"
  proof (rule ccontr)
    assume "\<not> count_list (columns df) col \<le> 1"
    then have "to_numeric_column col df = Inl TypeError"
      by (intro to_numeric_column_duplicate) simp
    with assms(2) show False by simp
  qed
  from to_numeric_column_under [OF assms(1) c] assms(2)
  show "df' = df\<lparr>rows := map (map_under (\<lambda>c. c = col) to_numeric_cell (columns df)) (rows df)\<rparr>"
    by simp
qed

lemma to_numeric_columns_rows:
  assumes wf: "wf_dataframe df"
    and p: "count_list (columns df) ''price'' \<le> 1"
    and q: "count_list (columns df) ''quantity'' \<le> 1"
  shows "to_numeric_columns [''price'', ''quantity''] df =
    Inr (df\<lparr>rows := map (coerce_row (columns df)) (rows df)\<rparr>)"
proof -
  let ?cols = "columns df"
  let ?df1 = "df\<lparr>rows := map (map_under (\<lambda>c. c = ''price'') to_numeric_cell ?cols) (rows df)\<rparr>"
  have 1: "to_numeric_column ''price'' df = Inr ?df1"
    using wf p by (rule to_numeric_column_under)
  have wf1: "wf_dataframe ?df1"
    using wf by (rule wf_map_rows) (simp add: length_map_under)
  have 2: "to_numeric_column ''quantity'' ?df1 =
    Inr (?df1\<lparr>rows := map (map_under (\<lambda>c. c = ''quantity'') to_numeric_cell ?cols) (rows ?df1)\<rparr>)"
    using to_numeric_column_under [OF wf1, of "''quantity''"] q by simp
  have 3: "map (map_under (\<lambda>c. c = ''quantity'') to_numeric_cell ?cols \<circ>
                map_under (\<lambda>c. c = ''price'') to_numeric_cell ?cols) (rows df) =
           map (coerce_row ?cols) (rows df)"
  proof (rule map_cong [OF refl])
    fix r assume "r \<in> set (rows df)"
    with wf have "length r = length ?cols" by (rule wf_dataframeD)
    then show "(map_under (\<lambda>c. c = ''quantity'') to_numeric_cell ?cols \<circ>
                map_under (\<lambda>c. c = ''price'') to_numeric_cell ?cols) r = coerce_row ?cols r"
      by (simp add: map_under_compose coerce_row_def designated_numeric_split)
  qed
  show ?thesis by (simp add: 1 2 3)
qed

lemma to_numeric_columns_Inr:
  assumes "wf_dataframe df" and "to_numeric_columns [''price'', ''quantity''] df = Inr df'"
  shows "count_list (columns df) ''price'' \<le> 1 \<and> count_list (columns df) ''quantity'' \<le> 1"
proof -
  from assms(2) obtain df1 where 1: "to_numeric_column ''price'' df = Inr df1"
    and 2: "to_numeric_column ''quantity'' df1 = Inr df'"
    by (auto split: sum.splits)
  note p = to_numeric_column_Inr [OF assms(1) 1]
  have wf1: "wf_dataframe df1"
    unfolding p(2) using assms(1) by (rule wf_map_rows) (simp add: length_map_under)
  from to_numeric_column_Inr(1) [OF wf1 2] have "count_list (columns df) ''quantity'' \<le> 1"
    by (simp add: p(2))
  with p(1) show ?thesis by simp
qed

lemma to_numeric_columns_error:
  "to_numeric_columns cs df = Inl e \<Longrightarrow> e = TypeError"
proof (induction cs arbitrary: df)
  case Nil
  then show ?case by simp
next
  case (Cons c cs)
  show ?case
  proof (cases "to_numeric_column c df")
    case (Inl e')
    then have "e' = TypeError"
      by (auto simp: to_numeric_column_def split: if_splits list.splits)
    with Inl Cons.prems show ?thesis by simp
  next
    case (Inr df')
    with Cons.prems have "to_numeric_columns cs df' = Inl e" by simp
    then show ?thesis by (rule Cons.IH)
  qed
qed

subsection \<open>The Missing-Value Resolver\<close>

lemma dropna_required:
  assumes "wf_dataframe df"
  shows "dropna [c \<leftarrow> [''price'', ''quantity'']. c \<in> set (columns df)] df =
         df\<lparr>rows := filter (complete_row (columns df)) (rows df)\<rparr>"
proof -
  have "list_all (\<lambda>c. list_all (\<lambda>i. \<not> isna (r ! i)) (column_positions df c))
          [c \<leftarrow> [''price'', ''quantity'']. c \<in> set (columns df)] = complete_row (columns df) r"
    if "r \<in> set (rows df)" for r
  proof -
    from assms that have len: "length r = length (columns df)" by (rule wf_dataframeD)
    have "list_all (\<lambda>c. list_all (\<lambda>i. \<not> isna (r ! i)) (column_positions df c))
            [c \<leftarrow> [''price'', ''quantity'']. c \<in> set (columns df)] \<longleftrightarrow>
          (\<forall>k < length (columns df). designated_numeric (columns df ! k) \<longrightarrow> \<not> isna (r ! k))"
      unfolding list_all_iff set_column_positions designated_numeric_def
      by (auto simp del: One_nat_def) (metis nth_mem)+
    with len show ?thesis by (simp add: complete_row_def all_under_nth)
  qed
  then show ?thesis by (simp add: dropna_def cong: filter_cong)
qed

lemma handle_missing_values_rows:
  assumes wf: "wf_dataframe df"
    and p: "count_list (columns df) ''price'' \<le> 1"
    and q: "count_list (columns df) ''quantity'' \<le> 1"
  shows "handle_missing_values df =
    Inr (df\<lparr>rows := filter (complete_row (columns df)) (map (coerce_row (columns df)) (rows df))\<rparr>)"
proof -
  let ?df1 = "df\<lparr>rows := map (coerce_row (columns df)) (rows df)\<rparr>"
  have 1: "to_numeric_columns [''price'', ''quantity''] df = Inr ?df1"
    using assms by (rule to_numeric_columns_rows)
  have wf1: "wf_dataframe ?df1"
    using wf by (rule wf_map_rows) (simp add: coerce_row_def length_map_under)
  have 2: "dropna [c \<leftarrow> [''price'', ''quantity'']. c \<in> set (columns ?df1)] ?df1 =
           ?df1\<lparr>rows := filter (complete_row (columns ?df1)) (rows ?df1)\<rparr>"
    using wf1 by (rule dropna_required)
  have 3: "filter (complete_row (columns df)) (rows ?df1) = rows ?df1"
    if "[c \<leftarrow> [''price'', ''quantity'']. c \<in> set (columns df)] = []"
  proof (intro filter_True ballI)
    fix r assume "r \<in> set (rows ?df1)"
    from wf_dataframeD [OF wf1 this] have "length r = length (columns df)" by simp
    moreover from that have "\<not> designated_numeric c" if "c \<in> set (columns df)" for c
      using that by (auto simp: designated_numeric_def split: if_splits)
    ultimately show "complete_row (columns df) r"
      unfolding complete_row_def by (rule all_under_absent)
  qed
  show ?thesis
  proof (cases "[c \<leftarrow> [''price'', ''quantity'']. c \<in> set (columns df)] = []")
    case True
    from 3 [OF True] have "?df1\<lparr>rows := filter (complete_row (columns df)) (rows ?df1)\<rparr> = ?df1"
      by simp
    with True show ?thesis
      unfolding handle_missing_values_def 1 by (simp add: Let_def)
  next
    case False
    with 2 show ?thesis
      unfolding handle_missing_values_def 1 by (simp add: Let_def)
  qed
qed

lemma handle_missing_values_Inr:
  assumes "wf_dataframe df" and "handle_missing_values df = Inr df'"
  shows "df' = df\<lparr>rows := filter (complete_row (columns df)) (map (coerce_row (columns df)) (rows df))\<rparr>"
proof -
  from assms(2) obtain df1 where "to_numeric_columns [''price'', ''quantity''] df = Inr df1"
    by (auto simp: handle_missing_values_def split: sum.splits)
  with assms(1) have "count_list (columns df) ''price'' \<le> 1 \<and> count_list (columns df) ''quantity'' \<le> 1"
    by (rule to_numeric_columns_Inr)
  with assms(1) have "handle_missing_values df =
    Inr (df\<lparr>rows := filter (complete_row (columns df)) (map (coerce_row (columns df)) (rows df))\<rparr>)"
    by (simp add: handle_missing_values_rows)
  with assms(2) show ?thesis by simp
qed

lemma handle_missing_values_error:
  assumes "wf_dataframe df" and "handle_missing_values df = Inl e"
  shows "e = TypeError \<and>
         (1 < count_list (columns df) ''price'' \<or> 1 < count_list (columns df) ''quantity'')"
proof -
  from assms(2) have "to_numeric_columns [''price'', ''quantity''] df = Inl e"
    by (auto simp: handle_missing_values_def Let_def split: sum.splits if_splits)
  then have "e = TypeError" by (rule to_numeric_columns_error)
  moreover have "1 < count_list (columns df) ''price'' \<or> 1 < count_list (columns df) ''quantity''"
  proof (rule ccontr)
    assume "\<not> ?thesis"
    then have "count_list (columns df) ''price'' \<le> 1" "count_list (columns df) ''quantity'' \<le> 1"
      by simp_all
    from handle_missing_values_rows [OF assms(1) this] assms(2) show False by simp
  qed
  ultimately show ?thesis by simp
qed

subsection \<open>The Invalid-Row Filter\<close>

lemma filter_ge_zero_under:
  assumes wf: "wf_dataframe df"
    and c: "count_list (columns df) col \<le> 1"
    and s: "\<And>r. r \<in> set (rows df) \<Longrightarrow> all_under (\<lambda>c. c = col) (\<lambda>x. \<not> is_str x) (columns df) r"
  shows "filter_ge_zero col df =
    Inr (df\<lparr>rows := filter (all_under (\<lambda>c. c = col) ge_zero (columns df)) (rows df)\<rparr>)"
proof (cases "col \<in> set (columns df)")
  case True
  with c obtain i where i: "column_positions df col = [i]"
    by (rule column_positions_single)
  have ns: "\<not> list_ex (\<lambda>r. is_str (r ! i)) (rows df)"
    unfolding list_ex_iff
  proof
    assume "\<exists>r \<in> set (rows df). is_str (r ! i)"
    then obtain r where r: "r \<in> set (rows df)" and "is_str (r ! i)" by blast
    moreover from wf r have "length r = length (columns df)" by (rule wf_dataframeD)
    ultimately show False using s [OF r] by (simp add: all_under_single [OF _ i])
  qed
  have "filter (\<lambda>r. ge_zero (r ! i)) (rows df) =
        filter (all_under (\<lambda>c. c = col) ge_zero (columns df)) (rows df)"
    by (rule filter_cong [OF refl]) (simp add: all_under_single [OF wf_dataframeD [OF wf] i])
  with True i ns show ?thesis
    by (simp add: filter_ge_zero_def)
next
  case False
  have "filter (all_under (\<lambda>c. c = col) ge_zero (columns df)) (rows df) = rows df"
  proof (intro filter_True ballI)
    fix r assume "r \<in> set (rows df)"
    with wf have len: "length r = length (columns df)" by (rule wf_dataframeD)
    show "all_under (\<lambda>c. c = col) ge_zero (columns df) r"
      by (rule all_under_absent [OF len]) (use False in auto)
  qed
  with False show ?thesis by (simp add: filter_ge_zero_def)
qed

lemma remove_invalid_rows_rows:
  assumes wf: "wf_dataframe df"
    and p: "count_list (columns df) ''price'' \<le> 1"
    and q: "count_list (columns df) ''quantity'' \<le> 1"
  shows "remove_invalid_rows df =
    Inr (df\<lparr>rows := filter (valid_row (columns df)) (map (coerce_row (columns df)) (rows df))\<rparr>)"
proof -
  let ?cols = "columns df"
  let ?df1 = "df\<lparr>rows := map (coerce_row ?cols) (rows df)\<rparr>"
  let ?P = "all_under (\<lambda>c. c = ''price'') ge_zero ?cols"
  let ?Q = "all_under (\<lambda>c. c = ''quantity'') ge_zero ?cols"
  let ?df2 = "?df1\<lparr>rows := filter ?P (rows ?df1)\<rparr>"
  have 1: "to_numeric_columns [''price'', ''quantity''] df = Inr ?df1"
    using assms by (rule to_numeric_columns_rows)
  have wf1: "wf_dataframe ?df1"
    using wf by (rule wf_map_rows) (simp add: coerce_row_def length_map_under)
  have ns: "all_under designated_numeric (\<lambda>x. \<not> is_str x) ?cols r"
    and len: "length r = length ?cols" if "r \<in> set (rows ?df1)" for r
  proof -
    from that obtain r0 where "r0 \<in> set (rows df)" and r: "r = coerce_row ?cols r0" by auto
    with wf have l0: "length r0 = length ?cols" by (auto dest: wf_dataframeD)
    then show "all_under designated_numeric (\<lambda>x. \<not> is_str x) ?cols r"
      unfolding r by (rule coerce_row_no_str)
    from l0 show "length r = length ?cols"
      unfolding r by (simp add: coerce_row_def length_map_under)
  qed
  have 2: "filter_ge_zero ''price'' ?df1 = Inr ?df2"
  proof -
    have "filter_ge_zero ''price'' ?df1 =
      Inr (?df1\<lparr>rows := filter (all_under (\<lambda>c. c = ''price'') ge_zero (columns ?df1)) (rows ?df1)\<rparr>)"
    proof (rule filter_ge_zero_under [OF wf1])
      show "count_list (columns ?df1) ''price'' \<le> 1" using p by simp
    next
      fix r assume "r \<in> set (rows ?df1)"
      from ns [OF this] len [OF this]
      show "all_under (\<lambda>c. c = ''price'') (\<lambda>x. \<not> is_str x) (columns ?df1) r"
        by (simp add: all_under_nth designated_numeric_def)
    qed
    then show ?thesis by simp
  qed
  have wf2: "wf_dataframe ?df2"
    using wf1 by (rule wf_filter_rows)
  have 3: "filter_ge_zero ''quantity'' ?df2 = Inr (?df2\<lparr>rows := filter ?Q (rows ?df2)\<rparr>)"
  proof -
    have "filter_ge_zero ''quantity'' ?df2 =
      Inr (?df2\<lparr>rows := filter (all_under (\<lambda>c. c = ''quantity'') ge_zero (columns ?df2)) (rows ?df2)\<rparr>)"
    proof (rule filter_ge_zero_under [OF wf2])
      show "count_list (columns ?df2) ''quantity'' \<le> 1" using q by simp
    next
      fix r assume "r \<in> set (rows ?df2)"
      then have "r \<in> set (rows ?df1)" by simp
      from ns [OF this] len [OF this]
      show "all_under (\<lambda>c. c = ''quantity'') (\<lambda>x. \<not> is_str x) (columns ?df2) r"
        by (simp add: all_under_nth designated_numeric_def)
    qed
    then show ?thesis by simp
  qed
  have 4: "filter ?Q (filter ?P (rows ?df1)) = filter (valid_row ?cols) (rows ?df1)"
    unfolding filter_filter
  proof (rule filter_cong [OF refl])
    fix r assume "r \<in> set (rows ?df1)"
    from len [OF this] show "(?P r \<and> ?Q r) = valid_row ?cols r"
      by (simp add: all_under_conj valid_row_def designated_numeric_split)
  qed
  have "remove_invalid_rows df = Inr (?df2\<lparr>rows := filter ?Q (rows ?df2)\<rparr>)"
    unfolding remove_invalid_rows_def 1 by (simp only: sum.case 2 3)
  also have "?df2\<lparr>rows := filter ?Q (rows ?df2)\<rparr> =
             df\<lparr>rows := filter (valid_row ?cols) (map (coerce_row ?cols) (rows df))\<rparr>"
    using 4 by simp
  finally show ?thesis .
qed

lemma remove_invalid_rows_Inr:
  assumes "wf_dataframe df" and "remove_invalid_rows df = Inr df'"
  shows "df' = df\<lparr>rows := filter (valid_row (columns df)) (map (coerce_row (columns df)) (rows df))\<rparr>"
proof -
  from assms(2) obtain df1 where "to_numeric_columns [''price'', ''quantity''] df = Inr df1"
    by (auto simp: remove_invalid_rows_def split: sum.splits)
  with assms(1) have "count_list (columns df) ''price'' \<le> 1 \<and> count_list (columns df) ''quantity'' \<le> 1"
    by (rule to_numeric_columns_Inr)
  with assms(1) have "remove_invalid_rows df =
    Inr (df\<lparr>rows := filter (valid_row (columns df)) (map (coerce_row (columns df)) (rows df))\<rparr>)"
    by (simp add: remove_invalid_rows_rows)
  with assms(2) show ?thesis by simp
qed

text \<open>
  The only exception the filter raises is the TypeError of \<open>to_numeric\<close> on a repeated
  label: the other two error branches of \<open>filter_ge_zero\<close> are never reached.
\<close>

lemma remove_invalid_rows_error:
  assumes "wf_dataframe df" and "remove_invalid_rows df = Inl e"
  shows "e = TypeError \<and>
         (1 < count_list (columns df) ''price'' \<or> 1 < count_list (columns df) ''quantity'')"
proof -
  have c: "1 < count_list (columns df) ''price'' \<or> 1 < count_list (columns df) ''quantity''"
  proof (rule ccontr)
    assume "\<not> ?thesis"
    then have "count_list (columns df) ''price'' \<le> 1" "count_list (columns df) ''quantity'' \<le> 1"
      by simp_all
    from remove_invalid_rows_rows [OF assms(1) this] assms(2) show False by simp
  qed
  have "to_numeric_columns [''price'', ''quantity''] df = Inl e"
  proof (cases "to_numeric_columns [''price'', ''quantity''] df")
    case (Inl e')
    with assms(2) show ?thesis by (simp add: remove_invalid_rows_def)
  next
    case (Inr df1)
    with assms(1) have "count_list (columns df) ''price'' \<le> 1 \<and> count_list (columns df) ''quantity'' \<le> 1"
      by (rule to_numeric_columns_Inr)
    with c show ?thesis by simp
  qed
  then have "e = TypeError" by (rule to_numeric_columns_error)
  with c show ?thesis by simp
qed

subsection \<open>The Text Trimmer\<close>

text \<open>
  The loop over \<open>target_cols\<close> returns exactly when no designated label is repeated, and
  then trims every cell under a designated label once.
\<close>

lemma count_list_distinct: "distinct xs \<Longrightarrow> x \<in> set xs \<Longrightarrow> count_list xs x = 1"
  by (induction xs) auto

lemma count_list_filter: "P x \<Longrightarrow> count_list (filter P xs) x = count_list xs x"
  by (induction xs) auto

lemma not_distinct_count_list:
  "\<not> distinct xs \<Longrightarrow> \<exists>c \<in> set xs. 1 < count_list xs c"
proof (induction xs)
  case Nil
  then show ?case by simp
next
  case (Cons a xs)
  show ?case
  proof (cases "a \<in> set xs")
    case True
    then have "count_list xs a \<noteq> 0" by (simp add: count_list_0_iff)
    then have "1 < count_list (a # xs) a" by simp
    then show ?thesis by (intro bexI [of _ a]) simp_all
  next
    case False
    with Cons.prems have "\<not> distinct xs" by simp
    with Cons.IH obtain c where c: "c \<in> set xs" and "1 < count_list xs c" by blast
    then have "1 < count_list (a # xs) c" by simp
    with c show ?thesis by (intro bexI [of _ c]) simp_all
  qed
qed

lemma target_cols_single:
  assumes "distinct (target_cols df)" and "c \<in> set (target_cols df)"
  shows "count_list (columns df) c = 1"
proof -
  from assms(2) have "designated_text c" by (simp add: target_cols_def)
  then have "count_list (columns df) c = count_list (target_cols df) c"
    by (simp add: target_cols_def count_list_filter)
  with assms show ?thesis by (simp add: count_list_distinct)
qed

lemma strip_columns_under:
  assumes "wf_dataframe df" and "distinct cs"
    and "\<And>c. c \<in> set cs \<Longrightarrow> count_list (columns df) c = 1"
  shows "strip_columns repr cs df =
    Inr (df\<lparr>rows := map (map_under (\<lambda>c. c \<in> set cs) (strip_cell repr) (columns df)) (rows df)\<rparr>)"
  using assms
proof (induction cs arbitrary: df)
  case Nil
  have "map (map_under (\<lambda>c. False) (strip_cell repr) (columns df)) (rows df) = rows df"
    using Nil.prems(1) by (intro map_idI map_under_absent) (auto simp: wf_dataframeD)
  then show ?case by simp
next
  case (Cons a cs)
  let ?cols = "columns df"
  let ?f = "strip_cell repr"
  let ?df1 = "df\<lparr>rows := map (map_under (\<lambda>c. c = a) ?f ?cols) (rows df)\<rparr>"
  have "length (column_positions df a) = 1"
    using Cons.prems(3) [of a] by (simp add: length_column_positions)
  then obtain i where i: "column_positions df a = [i]"
    by (cases "column_positions df a") auto
  have a1: "assign_column i ?f df = ?df1"
    using Cons.prems(1) i by (rule assign_column_under)
  have wf1: "wf_dataframe ?df1"
    using Cons.prems(1) by (rule wf_map_rows) (simp add: length_map_under)
  have ih: "strip_columns repr cs ?df1 =
    Inr (?df1\<lparr>rows := map (map_under (\<lambda>c. c \<in> set cs) ?f (columns ?df1)) (rows ?df1)\<rparr>)"
    using wf1 Cons.prems(2,3) by (intro Cons.IH) auto
  have "map (map_under (\<lambda>c. c \<in> set cs) ?f ?cols \<circ> map_under (\<lambda>c. c = a) ?f ?cols) (rows df) =
        map (map_under (\<lambda>c. c \<in> set (a # cs)) ?f ?cols) (rows df)"
  proof (rule map_cong [OF refl])
    fix r assume "r \<in> set (rows df)"
    with Cons.prems(1) have "length r = length ?cols" by (rule wf_dataframeD)
    moreover have "\<not> (c \<in> set cs \<and> c = a)" for c using Cons.prems(2) by auto
    ultimately show "(map_under (\<lambda>c. c \<in> set cs) ?f ?cols \<circ> map_under (\<lambda>c. c = a) ?f ?cols) r =
        map_under (\<lambda>c. c \<in> set (a # cs)) ?f ?cols r"
      by (simp add: map_under_compose)
  qed
  then show ?case by (simp add: i a1 ih)
qed

lemma strip_columns_duplicate:
  assumes "\<And>c. c \<in> set cs \<Longrightarrow> c \<in> set (columns df)"
    and "\<exists>c \<in> set cs. 1 < count_list (columns df) c"
  shows "strip_columns repr cs df = Inl AttributeError"
  using assms
proof (induction cs arbitrary: df)
  case Nil
  then show ?case by simp
next
  case (Cons a cs)
  from Cons.prems(1) have "column_positions df a \<noteq> []"
    by (simp add: column_positions_Nil)
  then consider i where "column_positions df a = [i]"
    | i j rest where "column_positions df a = i # j # rest"
    by (cases "column_positions df a" rule: remdups_adj.cases) auto
  then show ?case
  proof cases
    case 1
    then have "count_list (columns df) a = 1"
      using length_column_positions [of df a] by simp
    with Cons.prems(2) have "\<exists>c \<in> set cs. 1 < count_list (columns df) c" by auto
    with Cons.prems(1) have "strip_columns repr cs (assign_column i (strip_cell repr) df) =
      Inl AttributeError"
      by (intro Cons.IH) (auto simp: assign_column_def)
    with 1 show ?thesis by simp
  next
    case 2
    then show ?thesis by simp
  qed
qed

lemma strip_product_and_category_rows:
  assumes wf: "wf_dataframe df" and d: "distinct (target_cols df)"
  shows "strip_product_and_category repr df =
    Inr (df\<lparr>rows := map (trim_row repr (columns df)) (rows df)\<rparr>)"
proof -
  have "map (map_under (\<lambda>c. c \<in> set (target_cols df)) (strip_cell repr) (columns df)) (rows df) =
        map (trim_row repr (columns df)) (rows df)"
  proof (rule map_cong [OF refl])
    fix r assume "r \<in> set (rows df)"
    with wf have len: "length r = length (columns df)" by (rule wf_dataframeD)
    show "map_under (\<lambda>c. c \<in> set (target_cols df)) (strip_cell repr) (columns df) r =
          trim_row repr (columns df) r"
      unfolding trim_row_def using len
      by (intro nth_equalityI) (auto simp: length_map_under nth_map_under target_cols_def)
  qed
  with strip_columns_under [OF wf d target_cols_single [OF d], of repr] show ?thesis
    by (simp add: strip_product_and_category_def)
qed

lemma strip_product_and_category_duplicate:
  assumes "\<not> distinct (target_cols df)"
  shows "strip_product_and_category repr df = Inl AttributeError"
proof -
  from assms obtain c where c: "c \<in> set (target_cols df)"
    and n: "1 < count_list (target_cols df) c"
    using not_distinct_count_list by blast
  from c have "designated_text c" by (simp add: target_cols_def)
  then have "count_list (columns df) c = count_list (target_cols df) c"
    by (simp add: target_cols_def count_list_filter)
  with n have "1 < count_list (columns df) c" by simp
  with c have "\<exists>c \<in> set (target_cols df). 1 < count_list (columns df) c" by blast
  moreover have "c \<in> set (columns df)" if "c \<in> set (target_cols df)" for c
    using that by (simp add: target_cols_def)
  ultimately show ?thesis
    unfolding strip_product_and_category_def by (intro strip_columns_duplicate)
qed

lemma strip_product_and_category_Inr:
  assumes "wf_dataframe df" and "strip_product_and_category repr df = Inr df'"
  shows "df' = df\<lparr>rows := map (trim_row repr (columns df)) (rows df)\<rparr>"
proof -
  have "distinct (target_cols df)"
  proof (rule ccontr)
    assume "\<not> distinct (target_cols df)"
    then have "strip_product_and_category repr df = Inl AttributeError"
      by (rule strip_product_and_category_duplicate)
    with assms(2) show False by simp
  qed
  with assms show ?thesis by (simp add: strip_product_and_category_rows)
qed


subsection \<open>Standard decimal numbers are accepted by the scanner\<close>







section \<open>The claims about the stages\<close>

text \<open>
  Every statement below is about a table whose rows have one cell per column
  (\<open>wf_dataframe\<close>). A stage raises when a label it works on is repeated among the
  columns, so each statement has two parts: the stage returns when the labels it works
  on occur at most once, and whatever table it returns has the property.
\<close>

text \<open>
  C1: for every table, every row that survives the Invalid-Row Filter
  (\<open>remove_invalid_rows\<close>) holds a number \<open>>= 0\<close> in every column labelled \<open>price\<close> or
  \<open>quantity\<close>. The surviving rows are the coerced input rows, in order, whose cells under
  these labels are all numbers \<open>>= 0\<close>; in particular a row with a missing marker under
  one of these labels is excluded.
\<close>

theorem remove_invalid_rows_nonneg:
  assumes "wf_dataframe df"
  shows "(count_list (columns df) ''price'' \<le> 1 \<and> count_list (columns df) ''quantity'' \<le> 1 \<longrightarrow>
           (\<exists>df'. remove_invalid_rows df = Inr df')) \<and>
         (\<forall>df'. remove_invalid_rows df = Inr df' \<longrightarrow>
           (\<forall>r \<in> set (rows df'). \<forall>k < length (columns df').
              designated_numeric (columns df' ! k) \<longrightarrow> (\<exists>v. r ! k = Num v \<and> nonneg v)) \<and>
           rows df' = filter (valid_row (columns df)) (map (coerce_row (columns df)) (rows df)) \<and>
           (\<forall>r \<in> set (rows df). \<forall>k < length (columns df).
              designated_numeric (columns df ! k) \<and> isna (r ! k) \<longrightarrow>
              \<not> valid_row (columns df) (coerce_row (columns df) r)))"
proof (intro conjI allI impI)
  assume "count_list (columns df) ''price'' \<le> 1 \<and> count_list (columns df) ''quantity'' \<le> 1"
  with assms show "\<exists>df'. remove_invalid_rows df = Inr df'"
    by (simp add: remove_invalid_rows_rows)
next
  fix df' assume "remove_invalid_rows df = Inr df'"
  with assms have df': "df' = df\<lparr>rows := filter (valid_row (columns df)) (map (coerce_row (columns df)) (rows df))\<rparr>"
    by (rule remove_invalid_rows_Inr)
  then show "rows df' = filter (valid_row (columns df)) (map (coerce_row (columns df)) (rows df))"
    by simp
  show "\<forall>r \<in> set (rows df'). \<forall>k < length (columns df').
          designated_numeric (columns df' ! k) \<longrightarrow> (\<exists>v. r ! k = Num v \<and> nonneg v)"
  proof (intro ballI allI impI)
    fix r k
    assume "r \<in> set (rows df')" and k: "k < length (columns df')"
      and d: "designated_numeric (columns df' ! k)"
    then obtain r0 where r0: "r0 \<in> set (rows df)" and r: "r = coerce_row (columns df) r0"
      and v: "valid_row (columns df) r" by (auto simp: df')
    from assms r0 have "length r0 = length (columns df)" by (rule wf_dataframeD)
    then have "length r = length (columns df)" unfolding r by (rule length_coerce_row)
    with v k d have "ge_zero (r ! k)" by (simp add: valid_row_def all_under_nth df')
    then show "\<exists>v. r ! k = Num v \<and> nonneg v" by (rule ge_zero_Num)
  qed
  show "\<forall>r \<in> set (rows df). \<forall>k < length (columns df).
          designated_numeric (columns df ! k) \<and> isna (r ! k) \<longrightarrow>
          \<not> valid_row (columns df) (coerce_row (columns df) r)"
  proof (intro ballI allI impI)
    fix r k
    assume r: "r \<in> set (rows df)" and k: "k < length (columns df)"
      and d: "designated_numeric (columns df ! k) \<and> isna (r ! k)"
    from assms r have len: "length r = length (columns df)" by (rule wf_dataframeD)
    with k d have "coerce_row (columns df) r ! k = NaN"
      by (simp add: coerce_row_def nth_map_under isna_def)
    then have "\<not> ge_zero (coerce_row (columns df) r ! k)" by simp
    with len k d show "\<not> valid_row (columns df) (coerce_row (columns df) r)"
      by (auto simp: valid_row_def all_under_nth length_coerce_row)
  qed
qed

theorem remove_invalid_rows_nonneg_witness:
  "wf_dataframe sales_example \<and>
   count_list (columns sales_example) ''price'' \<le> 1 \<and>
   count_list (columns sales_example) ''quantity'' \<le> 1 \<and>
   remove_invalid_rows sales_example =
     Inr \<lparr>columns = [''product_name'', ''price'', ''quantity''],
          rows = [[Str '' Widget  '', Num (Finite (25 / 2)), Num (Finite 3)],
                  [Str ''Nut '', Num (Finite 1000), Num (Finite 0)]]\<rparr> \<and>
   (\<exists>df'. remove_invalid_rows sales_example = Inr df' \<and>
      (\<forall>r \<in> set (rows df'). \<forall>k < length (columns df').
         designated_numeric (columns df' ! k) \<longrightarrow> (\<exists>v. r ! k = Num v \<and> nonneg v)) \<and>
      rows df' = filter (valid_row (columns sales_example))
                   (map (coerce_row (columns sales_example)) (rows sales_example)) \<and>
      (\<forall>r \<in> set (rows sales_example). \<forall>k < length (columns sales_example).
         designated_numeric (columns sales_example ! k) \<and> isna (r ! k) \<longrightarrow>
         \<not> valid_row (columns sales_example) (coerce_row (columns sales_example) r)))"
proof -
  have 1: "wf_dataframe sales_example" by code_simp
  have 2: "count_list (columns sales_example) ''price'' \<le> 1" by code_simp
  have 3: "count_list (columns sales_example) ''quantity'' \<le> 1" by code_simp
  have 4: "remove_invalid_rows sales_example =
     Inr \<lparr>columns = [''product_name'', ''price'', ''quantity''],
          rows = [[Str '' Widget  '', Num (Finite (25 / 2)), Num (Finite 3)],
                  [Str ''Nut '', Num (Finite 1000), Num (Finite 0)]]\<rparr>"
    by code_simp
  note t = remove_invalid_rows_nonneg [OF 1]
  from t 2 3 obtain df' where 5: "remove_invalid_rows sales_example = Inr df'" by blast
  with t have "(\<forall>r \<in> set (rows df'). \<forall>k < length (columns df').
         designated_numeric (columns df' ! k) \<longrightarrow> (\<exists>v. r ! k = Num v \<and> nonneg v)) \<and>
      rows df' = filter (valid_row (columns sales_example))
                   (map (coerce_row (columns sales_example)) (rows sales_example)) \<and>
      (\<forall>r \<in> set (rows sales_example). \<forall>k < length (columns sales_example).
         designated_numeric (columns sales_example ! k) \<and> isna (r ! k) \<longrightarrow>
         \<not> valid_row (columns sales_example) (coerce_row (columns sales_example) r))"
    by blast
  with 5 have "\<exists>df'. remove_invalid_rows sales_example = Inr df' \<and>
      (\<forall>r \<in> set (rows df'). \<forall>k < length (columns df').
         designated_numeric (columns df' ! k) \<longrightarrow> (\<exists>v. r ! k = Num v \<and> nonneg v)) \<and>
      rows df' = filter (valid_row (columns sales_example))
                   (map (coerce_row (columns sales_example)) (rows sales_example)) \<and>
      (\<forall>r \<in> set (rows sales_example). \<forall>k < length (columns sales_example).
         designated_numeric (columns sales_example ! k) \<and> isna (r ! k) \<longrightarrow>
         \<not> valid_row (columns sales_example) (coerce_row (columns sales_example) r))"
    by blast
  with 1 2 3 4 show ?thesis by (intro conjI)
qed

text \<open>
  C2: for every table, after the Missing-Value Resolver (\<open>handle_missing_values\<close>) no
  surviving row has a missing marker in a column labelled \<open>price\<close> or \<open>quantity\<close>, the
  surviving rows are coerced input rows in their original order, and when neither label
  is present the stage returns its input unchanged.
\<close>

theorem handle_missing_values_complete:
  assumes "wf_dataframe df"
  shows "(count_list (columns df) ''price'' \<le> 1 \<and> count_list (columns df) ''quantity'' \<le> 1 \<longrightarrow>
           (\<exists>df'. handle_missing_values df = Inr df')) \<and>
         (\<forall>df'. handle_missing_values df = Inr df' \<longrightarrow>
           (\<forall>r \<in> set (rows df'). \<forall>k < length (columns df').
              designated_numeric (columns df' ! k) \<longrightarrow> \<not> isna (r ! k)) \<and>
           subseq (rows df') (map (coerce_row (columns df)) (rows df)) \<and>
           (''price'' \<notin> set (columns df) \<and> ''quantity'' \<notin> set (columns df) \<longrightarrow> df' = df))"
proof (intro conjI allI impI)
  assume "count_list (columns df) ''price'' \<le> 1 \<and> count_list (columns df) ''quantity'' \<le> 1"
  with assms show "\<exists>df'. handle_missing_values df = Inr df'"
    by (simp add: handle_missing_values_rows)
next
  fix df' assume h: "handle_missing_values df = Inr df'"
  with assms have df': "df' = df\<lparr>rows := filter (complete_row (columns df)) (map (coerce_row (columns df)) (rows df))\<rparr>"
    by (rule handle_missing_values_Inr)
  show "subseq (rows df') (map (coerce_row (columns df)) (rows df))"
    unfolding df' by simp
  show "\<forall>r \<in> set (rows df'). \<forall>k < length (columns df').
          designated_numeric (columns df' ! k) \<longrightarrow> \<not> isna (r ! k)"
  proof (intro ballI allI impI)
    fix r k
    assume "r \<in> set (rows df')" and k: "k < length (columns df')"
      and d: "designated_numeric (columns df' ! k)"
    then obtain r0 where r0: "r0 \<in> set (rows df)" and r: "r = coerce_row (columns df) r0"
      and v: "complete_row (columns df) r" by (auto simp: df')
    from assms r0 have "length r0 = length (columns df)" by (rule wf_dataframeD)
    then have "length r = length (columns df)" unfolding r by (rule length_coerce_row)
    with v k d show "\<not> isna (r ! k)" by (simp add: complete_row_def all_under_nth df')
  qed
  assume "''price'' \<notin> set (columns df) \<and> ''quantity'' \<notin> set (columns df)"
  then have "handle_missing_values df = Inr df"
    by (simp add: handle_missing_values_def to_numeric_column_def)
  with h show "df' = df" by simp
qed

theorem handle_missing_values_complete_witness:
  "wf_dataframe sales_example \<and>
   count_list (columns sales_example) ''price'' \<le> 1 \<and>
   count_list (columns sales_example) ''quantity'' \<le> 1 \<and>
   handle_missing_values sales_example =
     Inr \<lparr>columns = [''product_name'', ''price'', ''quantity''],
          rows = [[Str '' Widget  '', Num (Finite (25 / 2)), Num (Finite 3)],
                  [NaN, Num (Finite (- 5)), Num (Finite 3)],
                  [Str ''Nut '', Num (Finite 1000), Num (Finite 0)]]\<rparr> \<and>
   (\<exists>df'. handle_missing_values sales_example = Inr df' \<and>
      (\<forall>r \<in> set (rows df'). \<forall>k < length (columns df').
          designated_numeric (columns df' ! k) \<longrightarrow> \<not> isna (r ! k)) \<and>
      subseq (rows df') (map (coerce_row (columns sales_example)) (rows sales_example))) \<and>
   wf_dataframe contacts_example \<and>
   ''price'' \<notin> set (columns contacts_example) \<and>
   ''quantity'' \<notin> set (columns contacts_example) \<and>
   handle_missing_values contacts_example = Inr contacts_example"
proof -
  have 1: "wf_dataframe sales_example" by code_simp
  have 2: "count_list (columns sales_example) ''price'' \<le> 1" by code_simp
  have 3: "count_list (columns sales_example) ''quantity'' \<le> 1" by code_simp
  have 4: "handle_missing_values sales_example =
     Inr \<lparr>columns = [''product_name'', ''price'', ''quantity''],
          rows = [[Str '' Widget  '', Num (Finite (25 / 2)), Num (Finite 3)],
                  [NaN, Num (Finite (- 5)), Num (Finite 3)],
                  [Str ''Nut '', Num (Finite 1000), Num (Finite 0)]]\<rparr>"
    by code_simp
  have 5: "wf_dataframe contacts_example" by code_simp
  have 6: "count_list (columns contacts_example) ''price'' \<le> 1"
    "count_list (columns contacts_example) ''quantity'' \<le> 1"
    by code_simp+
  have 7: "''price'' \<notin> set (columns contacts_example)"
    "''quantity'' \<notin> set (columns contacts_example)"
    by code_simp+
  note t = handle_missing_values_complete [OF 1]
  from t 2 3 obtain df' where 8: "handle_missing_values sales_example = Inr df'" by blast
  with t have "(\<forall>r \<in> set (rows df'). \<forall>k < length (columns df').
          designated_numeric (columns df' ! k) \<longrightarrow> \<not> isna (r ! k)) \<and>
      subseq (rows df') (map (coerce_row (columns sales_example)) (rows sales_example))"
    by blast
  with 8 have a: "\<exists>df'. handle_missing_values sales_example = Inr df' \<and>
      (\<forall>r \<in> set (rows df'). \<forall>k < length (columns df').
          designated_numeric (columns df' ! k) \<longrightarrow> \<not> isna (r ! k)) \<and>
      subseq (rows df') (map (coerce_row (columns sales_example)) (rows sales_example))"
    by blast
  note u = handle_missing_values_complete [OF 5]
  from u 6 obtain df'' where 9: "handle_missing_values contacts_example = Inr df''" by blast
  with u 7 have "df'' = contacts_example" by blast
  with 9 have b: "handle_missing_values contacts_example = Inr contacts_example" by simp
  from 1 2 3 4 a 5 7 b show ?thesis by (intro conjI)
qed




text \<open>
  C5, as stated, fails: nothing is overwritten. Assigning the new labels keeps every
  column in its place, so two columns whose labels collide are both still there, under
  the same label, each with its own values.
\<close>

theorem clean_column_names_keeps_both:
  "columns collision_example ! 0 \<noteq> columns collision_example ! 1 \<and>
   columns (clean_column_names collision_example) = [''unit_price'', ''unit_price''] \<and>
   rows (clean_column_names collision_example) = [[Str ''9.99'', Str ''10'']] \<and>
   length (columns (clean_column_names collision_example)) = 2 \<and>
   column_values 0 collision_example = [Str ''9.99''] \<and>
   values_under (clean_column_names collision_example) ''unit_price'' = [[Str ''9.99''], [Str ''10'']] \<and>
   column_values 0 collision_example \<in>
     set (values_under (clean_column_names collision_example) ''unit_price'')"
  by code_simp

text \<open>
  C5 (amended): for every table with two columns whose labels normalize to the same
  label, the Header Normalizer keeps both columns: the number of columns is unchanged,
  the two positions carry the same label, every row is unchanged, and the values of
  both columns are found under the common label.
\<close>

theorem clean_column_names_collision:
  assumes "i < j" and "j < length (columns df)"
    and "normalize_label (columns df ! i) = normalize_label (columns df ! j)"
  shows "length (columns (clean_column_names df)) = length (columns df) \<and>
    columns (clean_column_names df) ! i = columns (clean_column_names df) ! j \<and>
    rows (clean_column_names df) = rows df \<and>
    column_values i df \<in> set (values_under (clean_column_names df) (normalize_label (columns df ! i))) \<and>
    column_values j df \<in> set (values_under (clean_column_names df) (normalize_label (columns df ! i)))"
proof -
  let ?df' = "clean_column_names df"
  let ?l = "normalize_label (columns df ! i)"
  have c: "columns ?df' = map normalize_label (columns df)" and r: "rows ?df' = rows df"
    by (simp_all add: clean_column_names_def)
  from assms have i: "i \<in> set (column_positions ?df' ?l)" and j: "j \<in> set (column_positions ?df' ?l)"
    by (simp_all add: set_column_positions c)
  have "column_values k df = column_values k ?df'" for k
    by (simp add: column_values_def r)
  with i j have "column_values i df \<in> set (values_under ?df' ?l)"
    and "column_values j df \<in> set (values_under ?df' ?l)"
    by (auto simp: values_under_def)
  with assms c r show ?thesis by simp
qed

theorem clean_column_names_collision_witness:
  "(0::nat) < 1 \<and> 1 < length (columns collision_example) \<and>
   columns collision_example ! 0 \<noteq> columns collision_example ! 1 \<and>
   normalize_label (columns collision_example ! 0) = ''unit_price'' \<and>
   normalize_label (columns collision_example ! 1) = ''unit_price'' \<and>
   length (columns (clean_column_names collision_example)) = length (columns collision_example) \<and>
   columns (clean_column_names collision_example) ! 0 = columns (clean_column_names collision_example) ! 1 \<and>
   rows (clean_column_names collision_example) = rows collision_example \<and>
   column_values 0 collision_example \<in> set (values_under (clean_column_names collision_example) ''unit_price'') \<and>
   column_values 1 collision_example \<in> set (values_under (clean_column_names collision_example) ''unit_price'')"
proof -
  have 1: "(0::nat) < 1" by simp
  have 2: "1 < length (columns collision_example)" by code_simp
  have 3: "normalize_label (columns collision_example ! 0) = ''unit_price''"
    "normalize_label (columns collision_example ! 1) = ''unit_price''"
    by code_simp+
  have 4: "columns collision_example ! 0 \<noteq> columns collision_example ! 1" by code_simp
  have 5: "normalize_label (columns collision_example ! 0) = normalize_label (columns collision_example ! 1)"
    by (simp only: 3)
  from clean_column_names_collision [OF 1 2 5, unfolded 3] 1 2 3 4 show ?thesis
    by (intro conjI) blast+
qed

text \<open>
  C6: for every table, the Header Normalizer and the Text Trimmer return a table with
  exactly as many rows as their input, and the Missing-Value Resolver and the
  Invalid-Row Filter return a table with at most as many rows, whose rows are coerced
  input rows in their original relative order.
\<close>

theorem stage_row_counts:
  assumes "wf_dataframe df"
  shows "length (rows (clean_column_names df)) = length (rows df) \<and>
   (distinct (target_cols df) \<longrightarrow> (\<exists>df'. strip_product_and_category repr df = Inr df')) \<and>
   (\<forall>df'. strip_product_and_category repr df = Inr df' \<longrightarrow>
      length (rows df') = length (rows df)) \<and>
   (count_list (columns df) ''price'' \<le> 1 \<and> count_list (columns df) ''quantity'' \<le> 1 \<longrightarrow>
      (\<exists>df'. handle_missing_values df = Inr df') \<and> (\<exists>df'. remove_invalid_rows df = Inr df')) \<and>
   (\<forall>df'. handle_missing_values df = Inr df' \<longrightarrow>
      length (rows df') \<le> length (rows df) \<and>
      subseq (rows df') (map (coerce_row (columns df)) (rows df))) \<and>
   (\<forall>df'. remove_invalid_rows df = Inr df' \<longrightarrow>
      length (rows df') \<le> length (rows df) \<and>
      subseq (rows df') (map (coerce_row (columns df)) (rows df)))"
proof -
  have le: "length (filter P (map g (rows df))) \<le> length (rows df)"
    for P and g :: "cell list \<Rightarrow> cell list"
    using length_filter_le [of P "map g (rows df)"] by simp
  have 1: "length (rows (clean_column_names df)) = length (rows df)"
    by (simp add: clean_column_names_def)
  have 2: "distinct (target_cols df) \<longrightarrow> (\<exists>df'. strip_product_and_category repr df = Inr df')"
    using assms by (simp add: strip_product_and_category_rows)
  have 3: "length (rows df') = length (rows df)"
    if "strip_product_and_category repr df = Inr df'" for df'
    using strip_product_and_category_Inr [OF assms that] by simp
  have 4: "count_list (columns df) ''price'' \<le> 1 \<and> count_list (columns df) ''quantity'' \<le> 1 \<longrightarrow>
      (\<exists>df'. handle_missing_values df = Inr df') \<and> (\<exists>df'. remove_invalid_rows df = Inr df')"
    using assms by (simp add: handle_missing_values_rows remove_invalid_rows_rows)
  have 5: "length (rows df') \<le> length (rows df) \<and>
      subseq (rows df') (map (coerce_row (columns df)) (rows df))"
    if "handle_missing_values df = Inr df'" for df'
    using handle_missing_values_Inr [OF assms that] le by simp
  have 6: "length (rows df') \<le> length (rows df) \<and>
      subseq (rows df') (map (coerce_row (columns df)) (rows df))"
    if "remove_invalid_rows df = Inr df'" for df'
    using remove_invalid_rows_Inr [OF assms that] le by simp
  from 1 2 3 4 5 6 show ?thesis by blast
qed

theorem stage_row_counts_witness:
  "wf_dataframe sales_example \<and> distinct (target_cols sales_example) \<and>
   count_list (columns sales_example) ''price'' \<le> 1 \<and>
   count_list (columns sales_example) ''quantity'' \<le> 1 \<and>
   length (rows sales_example) = 5 \<and>
   length (rows (clean_column_names sales_example)) = 5 \<and>
   (\<exists>df'. strip_product_and_category (\<lambda>v. ''0'') sales_example = Inr df' \<and>
      length (rows df') = 5) \<and>
   (\<exists>df'. handle_missing_values sales_example = Inr df' \<and> length (rows df') \<le> 5 \<and>
      subseq (rows df') (map (coerce_row (columns sales_example)) (rows sales_example))) \<and>
   (\<exists>df'. remove_invalid_rows sales_example = Inr df' \<and> length (rows df') \<le> 5 \<and>
      subseq (rows df') (map (coerce_row (columns sales_example)) (rows sales_example)))"
proof -
  have 1: "wf_dataframe sales_example" by code_simp
  have 2: "distinct (target_cols sales_example)" by code_simp
  have 3: "count_list (columns sales_example) ''price'' \<le> 1" by code_simp
  have 4: "count_list (columns sales_example) ''quantity'' \<le> 1" by code_simp
  have 5: "length (rows sales_example) = 5" by code_simp
  note t = stage_row_counts [OF 1, of "\<lambda>v. ''0''", unfolded 5]
  from t have a: "length (rows (clean_column_names sales_example)) = 5" by blast
  from t 2 obtain d1 where "strip_product_and_category (\<lambda>v. ''0'') sales_example = Inr d1"
    by blast
  with t have b: "\<exists>df'. strip_product_and_category (\<lambda>v. ''0'') sales_example = Inr df' \<and>
      length (rows df') = 5" by blast
  from t 3 4 obtain d2 where "handle_missing_values sales_example = Inr d2" by blast
  with t have c: "\<exists>df'. handle_missing_values sales_example = Inr df' \<and> length (rows df') \<le> 5 \<and>
      subseq (rows df') (map (coerce_row (columns sales_example)) (rows sales_example))" by blast
  from t 3 4 obtain d3 where "remove_invalid_rows sales_example = Inr d3" by blast
  with t have d: "\<exists>df'. remove_invalid_rows sales_example = Inr df' \<and> length (rows df') \<le> 5 \<and>
      subseq (rows df') (map (coerce_row (columns sales_example)) (rows sales_example))" by blast
  from 1 2 3 4 5 a b c d show ?thesis by (intro conjI)
qed

text \<open>
  C7: for every table, the Text Trimmer, the Missing-Value Resolver and the Invalid-Row
  Filter return a table with the same column labels in the same order, and the Text
  Trimmer leaves every cell of every column whose label contains neither \<open>product\<close>
  nor \<open>category\<close> unchanged.
\<close>

theorem stage_columns_stable:
  assumes "wf_dataframe df"
  shows "(distinct (target_cols df) \<longrightarrow> (\<exists>df'. strip_product_and_category repr df = Inr df')) \<and>
   (\<forall>df'. strip_product_and_category repr df = Inr df' \<longrightarrow>
      columns df' = columns df \<and>
      (\<forall>k < length (columns df). \<not> designated_text (columns df ! k) \<longrightarrow>
         column_values k df' = column_values k df)) \<and>
   (count_list (columns df) ''price'' \<le> 1 \<and> count_list (columns df) ''quantity'' \<le> 1 \<longrightarrow>
      (\<exists>df'. handle_missing_values df = Inr df') \<and> (\<exists>df'. remove_invalid_rows df = Inr df')) \<and>
   (\<forall>df'. handle_missing_values df = Inr df' \<longrightarrow> columns df' = columns df) \<and>
   (\<forall>df'. remove_invalid_rows df = Inr df' \<longrightarrow> columns df' = columns df)"
proof -
  have fr: "map (\<lambda>r. r ! k) (map (trim_row repr (columns df)) (rows df)) = map (\<lambda>r. r ! k) (rows df)"
    if "k < length (columns df)" and "\<not> designated_text (columns df ! k)" for k
    unfolding map_map
  proof (rule map_cong [OF refl])
    fix r assume "r \<in> set (rows df)"
    with assms have "length r = length (columns df)" by (simp add: wf_dataframeD)
    with that show "((\<lambda>r. r ! k) \<circ> trim_row repr (columns df)) r = r ! k"
      by (simp add: trim_row_def nth_map_under)
  qed
  have 1: "distinct (target_cols df) \<longrightarrow> (\<exists>df'. strip_product_and_category repr df = Inr df')"
    using assms by (simp add: strip_product_and_category_rows)
  have 2: "columns df' = columns df \<and>
      (\<forall>k < length (columns df). \<not> designated_text (columns df ! k) \<longrightarrow>
         column_values k df' = column_values k df)"
    if "strip_product_and_category repr df = Inr df'" for df'
    using strip_product_and_category_Inr [OF assms that] fr by (simp add: column_values_def)
  have 3: "count_list (columns df) ''price'' \<le> 1 \<and> count_list (columns df) ''quantity'' \<le> 1 \<longrightarrow>
      (\<exists>df'. handle_missing_values df = Inr df') \<and> (\<exists>df'. remove_invalid_rows df = Inr df')"
    using assms by (simp add: handle_missing_values_rows remove_invalid_rows_rows)
  have 4: "columns df' = columns df" if "handle_missing_values df = Inr df'" for df'
    using handle_missing_values_Inr [OF assms that] by simp
  have 5: "columns df' = columns df" if "remove_invalid_rows df = Inr df'" for df'
    using remove_invalid_rows_Inr [OF assms that] by simp
  from 1 2 3 4 5 show ?thesis by blast
qed

theorem stage_columns_stable_witness:
  "wf_dataframe sales_example \<and> distinct (target_cols sales_example) \<and>
   count_list (columns sales_example) ''price'' \<le> 1 \<and>
   count_list (columns sales_example) ''quantity'' \<le> 1 \<and>
   \<not> designated_text (columns sales_example ! 1) \<and>
   (\<exists>df'. strip_product_and_category (\<lambda>v. ''0'') sales_example = Inr df' \<and>
      columns df' = columns sales_example \<and>
      column_values 1 df' = column_values 1 sales_example) \<and>
   (\<exists>df'. handle_missing_values sales_example = Inr df' \<and> columns df' = columns sales_example) \<and>
   (\<exists>df'. remove_invalid_rows sales_example = Inr df' \<and> columns df' = columns sales_example)"
proof -
  have 1: "wf_dataframe sales_example" by code_simp
  have 2: "distinct (target_cols sales_example)" by code_simp
  have 3: "count_list (columns sales_example) ''price'' \<le> 1" by code_simp
  have 4: "count_list (columns sales_example) ''quantity'' \<le> 1" by code_simp
  have 5: "\<not> designated_text (columns sales_example ! 1)" by code_simp
  have 6: "1 < length (columns sales_example)" by code_simp
  note t = stage_columns_stable [OF 1, of "\<lambda>v. ''0''"]
  from t 2 obtain d1 where "strip_product_and_category (\<lambda>v. ''0'') sales_example = Inr d1"
    by blast
  with t 5 6 have a: "\<exists>df'. strip_product_and_category (\<lambda>v. ''0'') sales_example = Inr df' \<and>
      columns df' = columns sales_example \<and>
      column_values 1 df' = column_values 1 sales_example" by blast
  from t 3 4 obtain d2 where "handle_missing_values sales_example = Inr d2" by blast
  with t have b: "\<exists>df'. handle_missing_values sales_example = Inr df' \<and> columns df' = columns sales_example"
    by blast
  from t 3 4 obtain d3 where "remove_invalid_rows sales_example = Inr d3" by blast
  with t have c: "\<exists>df'. remove_invalid_rows sales_example = Inr df' \<and> columns df' = columns sales_example"
    by blast
  from 1 2 3 4 5 a b c show ?thesis by (intro conjI)
qed

text \<open>
  C9: the Missing-Value Resolver is idempotent: applied to a table that it has
  returned, it returns that table unchanged.
\<close>

theorem handle_missing_values_idempotent:
  assumes "wf_dataframe df"
  shows "(count_list (columns df) ''price'' \<le> 1 \<and> count_list (columns df) ''quantity'' \<le> 1 \<longrightarrow>
           (\<exists>df'. handle_missing_values df = Inr df')) \<and>
         (\<forall>df'. handle_missing_values df = Inr df' \<longrightarrow> handle_missing_values df' = Inr df')"
proof (intro conjI allI impI)
  assume "count_list (columns df) ''price'' \<le> 1 \<and> count_list (columns df) ''quantity'' \<le> 1"
  with assms show "\<exists>df'. handle_missing_values df = Inr df'"
    by (simp add: handle_missing_values_rows)
next
  fix df' assume h: "handle_missing_values df = Inr df'"
  let ?cols = "columns df"
  let ?out = "filter (complete_row ?cols) (map (coerce_row ?cols) (rows df))"
  from assms h have df': "df' = df\<lparr>rows := ?out\<rparr>"
    by (rule handle_missing_values_Inr)
  from h obtain df1 where "to_numeric_columns [''price'', ''quantity''] df = Inr df1"
    by (auto simp: handle_missing_values_def split: sum.splits)
  with assms have c: "count_list ?cols ''price'' \<le> 1 \<and> count_list ?cols ''quantity'' \<le> 1"
    by (rule to_numeric_columns_Inr)
  have wf': "wf_dataframe df'"
    unfolding df' using assms by (auto simp: wf_dataframe_def list_all_iff length_coerce_row)
  have "handle_missing_values df' =
    Inr (df'\<lparr>rows := filter (complete_row (columns df')) (map (coerce_row (columns df')) (rows df'))\<rparr>)"
    using wf' c by (intro handle_missing_values_rows) (simp_all add: df')
  moreover have "map (coerce_row ?cols) ?out = ?out"
  proof (rule map_idI)
    fix r assume "r \<in> set ?out"
    then obtain r0 where "r0 \<in> set (rows df)" and r: "r = coerce_row ?cols r0" by auto
    with assms have "length r0 = length ?cols" by (auto dest: wf_dataframeD)
    then show "coerce_row ?cols r = r" unfolding r by (rule coerce_row_idem)
  qed
  ultimately show "handle_missing_values df' = Inr df'" by (simp add: df')
qed

theorem handle_missing_values_idempotent_witness:
  "wf_dataframe sales_example \<and>
   count_list (columns sales_example) ''price'' \<le> 1 \<and>
   count_list (columns sales_example) ''quantity'' \<le> 1 \<and>
   handle_missing_values sales_example =
     Inr \<lparr>columns = [''product_name'', ''price'', ''quantity''],
          rows = [[Str '' Widget  '', Num (Finite (25 / 2)), Num (Finite 3)],
                  [NaN, Num (Finite (- 5)), Num (Finite 3)],
                  [Str ''Nut '', Num (Finite 1000), Num (Finite 0)]]\<rparr> \<and>
   handle_missing_values
     \<lparr>columns = [''product_name'', ''price'', ''quantity''],
      rows = [[Str '' Widget  '', Num (Finite (25 / 2)), Num (Finite 3)],
              [NaN, Num (Finite (- 5)), Num (Finite 3)],
              [Str ''Nut '', Num (Finite 1000), Num (Finite 0)]]\<rparr> =
     Inr \<lparr>columns = [''product_name'', ''price'', ''quantity''],
          rows = [[Str '' Widget  '', Num (Finite (25 / 2)), Num (Finite 3)],
                  [NaN, Num (Finite (- 5)), Num (Finite 3)],
                  [Str ''Nut '', Num (Finite 1000), Num (Finite 0)]]\<rparr>"
proof -
  have 1: "wf_dataframe sales_example" by code_simp
  have 2: "count_list (columns sales_example) ''price'' \<le> 1" by code_simp
  have 3: "count_list (columns sales_example) ''quantity'' \<le> 1" by code_simp
  have 4: "handle_missing_values sales_example =
     Inr \<lparr>columns = [''product_name'', ''price'', ''quantity''],
          rows = [[Str '' Widget  '', Num (Finite (25 / 2)), Num (Finite 3)],
                  [NaN, Num (Finite (- 5)), Num (Finite 3)],
                  [Str ''Nut '', Num (Finite 1000), Num (Finite 0)]]\<rparr>"
    by code_simp
  from handle_missing_values_idempotent [OF 1] 4
  have "handle_missing_values
     \<lparr>columns = [''product_name'', ''price'', ''quantity''],
      rows = [[Str '' Widget  '', Num (Finite (25 / 2)), Num (Finite 3)],
              [NaN, Num (Finite (- 5)), Num (Finite 3)],
              [Str ''Nut '', Num (Finite 1000), Num (Finite 0)]]\<rparr> =
     Inr \<lparr>columns = [''product_name'', ''price'', ''quantity''],
          rows = [[Str '' Widget  '', Num (Finite (25 / 2)), Num (Finite 3)],
                  [NaN, Num (Finite (- 5)), Num (Finite 3)],
                  [Str ''Nut '', Num (Finite 1000), Num (Finite 0)]]\<rparr>"
    by blast
  with 1 2 3 4 show ?thesis by (intro conjI)
qed



end
